theory Spec2Isabelle
  imports Main
begin

section \<open>The \<open>user\<close> table and the six literal statements\<close>

text \<open>
  The service \<^verbatim>\<open>services/db_services.py\<close> talks to one remote table, \<open>user\<close>, with the
  columns \<open>(full_name, username, email, hashed_password)\<close>. A stored row is a record of
  its four columns; the table is the list of its rows in insertion order (duplicates are
  possible: the store enforces no uniqueness constraint).
\<close>

record row =
  col_full_name :: string
  col_username :: string
  col_email :: string
  col_hashed_password :: string

type_synonym table = "row list"

text \<open>
  The service sends exactly six statement texts, each with a positional parameter list:
  \<^item> \<open>INSERT_USER\<close>: \<^verbatim>\<open>INSERT INTO user(full_name, username, email, hashed_password) VALUES (?, ?, ?, ?);\<close>
  \<^item> \<open>SELECT_USER\<close>: \<^verbatim>\<open>SELECT full_name, username, email, hashed_password FROM user WHERE username = ?;\<close>
  \<^item> \<open>DELETE_USER\<close>: \<^verbatim>\<open>DELETE FROM user WHERE username = ?\<close>
  \<^item> \<open>UPDATE_USER\<close>: \<^verbatim>\<open>UPDATE user SET full_name = ?, username = ?, email = ?, hashed_password = ? WHERE username = ?\<close>
  \<^item> \<open>SELECT_BY_USERNAME\<close>: \<^verbatim>\<open>SELECT * FROM user WHERE username = ?;\<close>
  \<^item> \<open>SELECT_BY_USERNAME_OR_EMAIL\<close>: \<^verbatim>\<open>SELECT * FROM user WHERE username = ? OR email = ?;\<close>
\<close>

datatype sql =
    INSERT_USER
  | SELECT_USER
  | DELETE_USER
  | UPDATE_USER
  | SELECT_BY_USERNAME
  | SELECT_BY_USERNAME_OR_EMAIL

text \<open>
  A result row is the sequence of the selected column values, read by position
  (\<^verbatim>\<open>row[0]\<close>, ..., \<^verbatim>\<open>row[3]\<close>); \<^verbatim>\<open>result.rows\<close> is the list of result rows.
\<close>

type_synonym result_row = "string list"

definition columns :: "row \<Rightarrow> result_row" where
  "columns r = [col_full_name r, col_username r, col_email r, col_hashed_password r]"

text \<open>
  What the store does with a statement and its parameters on a table: the result rows and
  the table afterwards. A parameter list of the wrong length is rejected by the store
  (\<open>None\<close>). \<open>WHERE username = ?\<close> keeps the rows whose \<open>username\<close> column equals the
  parameter; \<open>DELETE\<close> and \<open>UPDATE\<close> act on every such row.
\<close>

fun run_statement :: "sql \<Rightarrow> string list \<Rightarrow> table \<Rightarrow> (result_row list \<times> table) option" where
  "run_statement INSERT_USER [fn, un, em, pw] t =
     Some ([], t @ [\<lparr>col_full_name = fn, col_username = un, col_email = em,
                     col_hashed_password = pw\<rparr>])"
| "run_statement SELECT_USER [u] t =
     Some (map columns (filter (\<lambda>r. col_username r = u) t), t)"
| "run_statement DELETE_USER [u] t =
     Some ([], filter (\<lambda>r. col_username r \<noteq> u) t)"
| "run_statement UPDATE_USER [fn, un, em, pw, u] t =
     Some ([], map (\<lambda>r. if col_username r = u
                         then \<lparr>col_full_name = fn, col_username = un, col_email = em,
                               col_hashed_password = pw\<rparr>
                         else r) t)"
| "run_statement SELECT_BY_USERNAME [u] t =
     Some (map columns (filter (\<lambda>r. col_username r = u) t), t)"
| "run_statement SELECT_BY_USERNAME_OR_EMAIL [u, e] t =
     Some (map columns (filter (\<lambda>r. col_username r = u \<or> col_email r = e) t), t)"
| "run_statement _ _ t = None"

section \<open>The process state, connection handles and coroutines\<close>

text \<open>
  The calls an operation makes are recorded in order: taking and leaving the lock
  \<^verbatim>\<open>look\<close>, \<^verbatim>\<open>client.execute\<close> (with the handle, the statement and its parameters) and
  \<^verbatim>\<open>client.close\<close> (with the handle).
\<close>

datatype event =
    Acquire
  | Release
  | Execute nat sql "string list"
  | Close nat

text \<open>
  The state an operation runs in: the remote table, whether the module-level lock
  \<^verbatim>\<open>look = asyncio.locks.Lock()\<close> is held, and the log of the calls made so far.
\<close>

record world =
  user_table :: table
  look :: bool
  log :: "event list"

text \<open>
  A connection handle (\<^verbatim>\<open>Client\<close>): its identity, and whether \<^verbatim>\<open>execute\<close> on it raises
  (connection refused, query execution error, handle already closed).
\<close>

record client =
  conn :: nat
  fails :: bool

datatype error = StoreError

text \<open>
  An \<^verbatim>\<open>async def\<close> body run to completion by a single caller: from a state it either
  returns a value or raises (\<open>Inr\<close>, \<open>Inl\<close>) in a new state, or never returns (\<open>None\<close>).
\<close>

type_synonym 'a coro = "world \<Rightarrow> ((error + 'a) \<times> world) option"

definition coro_return :: "'a \<Rightarrow> 'a coro" where
  "coro_return x w = Some (Inr x, w)"

definition coro_bind :: "'a coro \<Rightarrow> ('a \<Rightarrow> 'b coro) \<Rightarrow> 'b coro" where
  "coro_bind m f w =
     (case m w of
        None \<Rightarrow> None
      | Some (Inl e, w1) \<Rightarrow> Some (Inl e, w1)
      | Some (Inr x, w1) \<Rightarrow> f x w1)"

text \<open>
  \<^verbatim>\<open>await client.execute(sql, args)\<close>: the call is logged; it raises when the handle fails or
  the store rejects the statement, and otherwise returns the result rows and leaves the
  table as the statement made it. A statement that raises changes nothing.
\<close>

definition execute :: "client \<Rightarrow> sql \<Rightarrow> string list \<Rightarrow> (result_row list) coro" where
  "execute c q args w =
     (let w1 = w\<lparr>log := log w @ [Execute (conn c) q args]\<rparr> in
      if fails c then Some (Inl StoreError, w1)
      else (case run_statement q args (user_table w) of
              None \<Rightarrow> Some (Inl StoreError, w1)
            | Some (rs, t) \<Rightarrow> Some (Inr rs, w1\<lparr>user_table := t\<rparr>)))"

text \<open>\<^verbatim>\<open>await client.close()\<close>: logged; closing is taken not to raise.\<close>

definition close :: "client \<Rightarrow> unit coro" where
  "close c w = Some (Inr (), w\<lparr>log := log w @ [Close (conn c)]\<rparr>)"

text \<open>
  \<^verbatim>\<open>async with look: body\<close>. Entering waits for the lock; with a single caller a lock that is
  held is never released, so the coroutine does not return. Otherwise the lock is taken,
  the body runs, and the lock is released on the way out whether the body returned or
  raised; the body's outcome is the outcome of the block.
\<close>

definition async_with_look :: "'a coro \<Rightarrow> 'a coro" where
  "async_with_look body w =
     (if look w then None
      else (case body (w\<lparr>look := True, log := log w @ [Acquire]\<rparr>) of
              None \<Rightarrow> None
            | Some (r, w1) \<Rightarrow> Some (r, w1\<lparr>look := False, log := log w1 @ [Release]\<rparr>)))"

text \<open>
  \<^verbatim>\<open>try: body finally: fin\<close>. The \<open>finally\<close> block runs after the body on every exit,
  return or raise; the block's outcome is the body's, unless \<open>fin\<close> itself raises.
\<close>

definition try_finally :: "'a coro \<Rightarrow> unit coro \<Rightarrow> 'a coro" where
  "try_finally body fin w =
     (case body w of
        None \<Rightarrow> None
      | Some (r, w1) \<Rightarrow>
          (case fin w1 of
             None \<Rightarrow> None
           | Some (Inl e, w2) \<Rightarrow> Some (Inl e, w2)
           | Some (Inr _, w2) \<Rightarrow> Some (r, w2)))"

section \<open>The user models\<close>

text \<open>
  \<^verbatim>\<open>models.user_db\<close> declares \<^verbatim>\<open>User\<close> and \<^verbatim>\<open>UserDB\<close>; the service builds them from the
  keys \<open>full_name\<close>, \<open>username\<close>, \<open>email\<close> (and \<open>password\<close> for \<^verbatim>\<open>UserDB\<close>) and reads those
  attributes.
\<close>

record user =
  full_name :: string
  username :: string
  email :: string

record user_db = user +
  password :: string

text \<open>
  Modelled from the spec: the declaration of \<^verbatim>\<open>UserDB\<close> (and so the order of
  \<^verbatim>\<open>user.model_dump().values()\<close>) is not in the service file. The spec fixes the order
  of the inserted values as \<open>(full_name, username, email, secret)\<close>.
\<close>

definition model_dump_values :: "user_db \<Rightarrow> string list" where
  "model_dump_values u = [full_name u, username u, email u, password u]"

text \<open>What \<^verbatim>\<open>get_user\<close> returns when a user is found: a \<^verbatim>\<open>User\<close> or a \<^verbatim>\<open>UserDB\<close>.\<close>

datatype view = IsUser user | IsUserDB user_db

section \<open>The operations\<close>

definition add_user :: "client \<Rightarrow> user_db \<Rightarrow> unit coro" where
  "add_user c u =
     try_finally
       (async_with_look
          (coro_bind (execute c INSERT_USER (model_dump_values u)) (\<lambda>_. coro_return ())))
       (close c)"

text \<open>
  In \<^verbatim>\<open>get_user\<close> the row is \<^verbatim>\<open>result.rows[0] if len(result.rows) == 1 else None\<close>; a
  row of four columns is truthy, so \<^verbatim>\<open>if row:\<close> asks whether a row was picked. The flag
  \<^verbatim>\<open>hidden_password\<close>, when set, adds the password and returns a \<^verbatim>\<open>UserDB\<close>.
\<close>

definition get_user :: "client \<Rightarrow> string \<Rightarrow> bool \<Rightarrow> (view option) coro" where
  "get_user c uname hidden_password =
     try_finally
       (async_with_look
          (coro_bind (execute c SELECT_USER [uname]) (\<lambda>result.
             (case (if length result = 1 then Some (result ! 0) else None) of
                Some r \<Rightarrow>
                  (if hidden_password
                   then coro_return (Some (IsUserDB
                          \<lparr>full_name = r ! 0, username = r ! 1, email = r ! 2,
                           password = r ! 3\<rparr>))
                   else coro_return (Some (IsUser
                          \<lparr>full_name = r ! 0, username = r ! 1, email = r ! 2\<rparr>)))
              | None \<Rightarrow> coro_return None))))
       (close c)"

definition delete_user :: "client \<Rightarrow> string \<Rightarrow> unit coro" where
  "delete_user c uname =
     try_finally
       (async_with_look
          (coro_bind (execute c DELETE_USER [uname]) (\<lambda>_. coro_return ())))
       (close c)"

definition update_user :: "client \<Rightarrow> string \<Rightarrow> user_db \<Rightarrow> unit coro" where
  "update_user c uname updated_user =
     try_finally
       (async_with_look
          (coro_bind
             (execute c UPDATE_USER
                [full_name updated_user, username updated_user, email updated_user,
                 password updated_user, uname])
             (\<lambda>_. coro_return ())))
       (close c)"

definition exists_username :: "client \<Rightarrow> string \<Rightarrow> bool coro" where
  "exists_username c uname =
     try_finally
       (async_with_look
          (coro_bind (execute c SELECT_BY_USERNAME [uname]) (\<lambda>result.
             coro_return (length result \<noteq> 0))))
       (close c)"

text \<open>
  \<^verbatim>\<open>is_unique\<close> nests the other way round: the \<open>try/finally\<close> is inside the
  \<^verbatim>\<open>async with look\<close> block. It reads \<open>username\<close> and \<open>email\<close> of a \<^verbatim>\<open>User\<close>.
\<close>

definition is_unique :: "client \<Rightarrow> 'a user_scheme \<Rightarrow> bool \<Rightarrow> bool coro" where
  "is_unique c u for_update_user =
     async_with_look
       (try_finally
          (coro_bind (execute c SELECT_BY_USERNAME_OR_EMAIL [username u, email u]) (\<lambda>result.
             coro_return (if \<not> for_update_user then length result = 0
                          else length result = 1)))
          (close c))"

section \<open>Reading the call log\<close>

text \<open>
  The operation whose outcome is \<open>out\<close>, started in \<open>w\<close>, returned or raised, and the calls
  it added to the log are exactly \<open>evs\<close>, in this order.
\<close>

definition op_log :: "world \<Rightarrow> ((error + 'a) \<times> world) option \<Rightarrow> event list \<Rightarrow> bool" where
  "op_log w out evs = (case out of None \<Rightarrow> False | Some (r, w1) \<Rightarrow> log w1 = log w @ evs)"

text \<open>
  A check on the calls of a log, read from a state where the lock is held or not: every
  \<^verbatim>\<open>close\<close> happens while the lock is held, that is, the lock is released only after the
  close.
\<close>

fun closes_under_gate :: "bool \<Rightarrow> event list \<Rightarrow> bool" where
  "closes_under_gate held [] = True"
| "closes_under_gate held (Acquire # es) = closes_under_gate True es"
| "closes_under_gate held (Release # es) = closes_under_gate False es"
| "closes_under_gate held (Execute k q args # es) = closes_under_gate held es"
| "closes_under_gate held (Close k # es) = (held \<and> closes_under_gate held es)"

text \<open>
  The outcome of an operation on handle \<open>c\<close> started in \<open>w\<close> closes the handle exactly once
  and hands a store failure on: the operation returns, the log only grows, the calls it
  added hold exactly one \<^verbatim>\<open>close\<close> of \<open>c\<close>, and the caller sees \<open>StoreError\<close> exactly when
  the handle fails.
\<close>

definition closes_once_and_propagates ::
    "client \<Rightarrow> world \<Rightarrow> ((error + 'a) \<times> world) option \<Rightarrow> bool" where
  "closes_once_and_propagates c w out =
     (case out of
        None \<Rightarrow> False
      | Some (r, w1) \<Rightarrow>
          take (length (log w)) (log w1) = log w \<and>
          count_list (drop (length (log w)) (log w1)) (Close (conn c)) = 1 \<and>
          (r = Inl StoreError) = fails c)"

section \<open>Sample data\<close>

text \<open>The record and the rows of the end-to-end scenario, and idle process states.\<close>

definition ana :: user_db where
  "ana = \<lparr>full_name = ''Ana Gomez'', username = ''ana'', email = ''ana@x.com'',
          password = ''h1''\<rparr>"

definition ana_row :: row where
  "ana_row = \<lparr>col_full_name = ''Ana Gomez'', col_username = ''ana'',
              col_email = ''ana@x.com'', col_hashed_password = ''h1''\<rparr>"

definition bob_row :: row where
  "bob_row = \<lparr>col_full_name = ''Bob Diaz'', col_username = ''bob'',
              col_email = ''bob@x.com'', col_hashed_password = ''h2''\<rparr>"

definition ana_twin_row :: row where
  "ana_twin_row = \<lparr>col_full_name = ''Ana Twin'', col_username = ''ana'',
                   col_email = ''twin@x.com'', col_hashed_password = ''h3''\<rparr>"

definition bob :: user_db where
  "bob = \<lparr>full_name = ''Bob Diaz'', username = ''bob'', email = ''bob@x.com'',
          password = ''h2''\<rparr>"

definition idle :: "table \<Rightarrow> world" where
  "idle t = \<lparr>user_table = t, look = False, log = []\<rparr>"

definition handle :: "nat \<Rightarrow> client" where
  "handle k = \<lparr>conn = k, fails = False\<rparr>"

definition failing_handle :: "nat \<Rightarrow> client" where
  "failing_handle k = \<lparr>conn = k, fails = True\<rparr>"

text \<open>
  The end-to-end scenario: one caller awaiting ten operations in turn, each on a handle of
  its own, and collecting what the reads and checks return.
\<close>

definition scenario :: "(view option \<times> view option \<times> bool \<times> bool \<times> bool \<times> bool \<times> bool) coro" where
  "scenario =
     coro_bind (add_user (handle 1) ana) (\<lambda>_.
     coro_bind (get_user (handle 2) ''ana'' False) (\<lambda>public.
     coro_bind (get_user (handle 3) ''ana'' True) (\<lambda>privileged.
     coro_bind (exists_username (handle 4) ''ana'') (\<lambda>e1.
     coro_bind (is_unique (handle 5)
                  \<lparr>full_name = '''', username = ''ana'', email = ''other@x.com''\<rparr> False) (\<lambda>u1.
     coro_bind (update_user (handle 6) ''ana''
                  \<lparr>full_name = ''Ana G.'', username = ''ana2'', email = ''ana@x.com'',
                   password = ''h1''\<rparr>) (\<lambda>_.
     coro_bind (exists_username (handle 7) ''ana'') (\<lambda>e2.
     coro_bind (exists_username (handle 8) ''ana2'') (\<lambda>e3.
     coro_bind (delete_user (handle 9) ''ana2'') (\<lambda>_.
     coro_bind (exists_username (handle 10) ''ana2'') (\<lambda>e4.
     coro_return (public, privileged, e1, u1, e2, e3, e4)))))))))))"

section \<open>Several callers in one process\<close>

text \<open>
  A call of one of the six operations, with its arguments (\<^verbatim>\<open>is_unique\<close> is given a
  \<^verbatim>\<open>User\<close>).
\<close>

datatype call =
    AddUser client user_db
  | GetUser client string bool
  | DeleteUser client string
  | UpdateUser client string user_db
  | ExistsUsername client string
  | IsUnique client user bool

text \<open>
  The calls an operation makes when it runs on its own: the log it leaves when started in
  an idle state with table \<open>t\<close>.
\<close>

definition calls_made :: "((error + 'a) \<times> world) option \<Rightarrow> event list" where
  "calls_made out = (case out of None \<Rightarrow> [] | Some (r, w1) \<Rightarrow> log w1)"

fun call_log :: "table \<Rightarrow> call \<Rightarrow> event list" where
  "call_log t (AddUser c u) = calls_made (add_user c u (idle t))"
| "call_log t (GetUser c un hp) = calls_made (get_user c un hp (idle t))"
| "call_log t (DeleteUser c un) = calls_made (delete_user c un (idle t))"
| "call_log t (UpdateUser c un u) = calls_made (update_user c un u (idle t))"
| "call_log t (ExistsUsername c un) = calls_made (exists_username c un (idle t))"
| "call_log t (IsUnique c v fu) = calls_made (is_unique c v fu (idle t))"

text \<open>
  When several callers run at once, a joint log lists the calls of all of them in the
  order in which they complete, each paired with the caller that made it: \<open>Acquire\<close> is
  the moment the lock is granted, \<open>Execute\<close> and \<open>Close\<close> the return of the awaited call.
  \<open>by_caller\<close> tags one caller's calls, \<open>calls_of\<close> reads one caller's calls back out of
  a joint log.
\<close>

definition by_caller :: "nat \<Rightarrow> event list \<Rightarrow> (nat \<times> event) list" where
  "by_caller i evs = map (Pair i) evs"

definition calls_of :: "nat \<Rightarrow> (nat \<times> event) list \<Rightarrow> event list" where
  "calls_of i zs = map snd (filter (\<lambda>p. fst p = i) zs)"

text \<open>
  A joint log respects the lock (\<open>h\<close> is the caller holding it, if any): the lock is
  granted only when nobody holds it, and released only by its holder.
\<close>

fun lock_respecting :: "nat option \<Rightarrow> (nat \<times> event) list \<Rightarrow> bool" where
  "lock_respecting h [] = True"
| "lock_respecting h ((i, Acquire) # zs) = (h = None \<and> lock_respecting (Some i) zs)"
| "lock_respecting h ((i, Release) # zs) = (h = Some i \<and> lock_respecting None zs)"
| "lock_respecting h ((i, Execute k q args) # zs) = lock_respecting h zs"
| "lock_respecting h ((i, Close k) # zs) = lock_respecting h zs"

text \<open>
  Every query of a joint log is made by the caller that holds the lock at that moment.
\<close>

fun queries_under_gate :: "nat option \<Rightarrow> (nat \<times> event) list \<Rightarrow> bool" where
  "queries_under_gate h [] = True"
| "queries_under_gate h ((i, Acquire) # zs) = queries_under_gate (Some i) zs"
| "queries_under_gate h ((i, Release) # zs) = queries_under_gate None zs"
| "queries_under_gate h ((i, Execute k q args) # zs) = (h = Some i \<and> queries_under_gate h zs)"
| "queries_under_gate h ((i, Close k) # zs) = queries_under_gate h zs"

text \<open>
  At most one caller at a time is inside its query/close sequence, the stretch from its
  query to its close (\<open>cur\<close> is the caller inside, if any): nobody else queries or closes
  in between.
\<close>

fun serialized :: "nat option \<Rightarrow> (nat \<times> event) list \<Rightarrow> bool" where
  "serialized cur [] = True"
| "serialized cur ((i, Acquire) # zs) = serialized cur zs"
| "serialized cur ((i, Release) # zs) = serialized cur zs"
| "serialized cur ((i, Execute k q args) # zs) =
     ((cur = None \<or> cur = Some i) \<and> serialized (Some i) zs)"
| "serialized cur ((i, Close k) # zs) =
     ((cur = None \<or> cur = Some i) \<and> serialized None zs)"

text \<open>
  Two checks on the calls of a single caller. \<open>executes_under_gate\<close>: every query is made
  between an acquire and the next release. \<open>closes_before_release\<close>: moreover every close
  is, and a release never comes between a query and its close.
\<close>

fun executes_under_gate :: "bool \<Rightarrow> event list \<Rightarrow> bool" where
  "executes_under_gate held [] = True"
| "executes_under_gate held (Acquire # es) = executes_under_gate True es"
| "executes_under_gate held (Release # es) = executes_under_gate False es"
| "executes_under_gate held (Execute k q args # es) = (held \<and> executes_under_gate held es)"
| "executes_under_gate held (Close k # es) = executes_under_gate held es"

fun closes_before_release :: "bool \<Rightarrow> bool \<Rightarrow> event list \<Rightarrow> bool" where
  "closes_before_release held inside [] = True"
| "closes_before_release held inside (Acquire # es) = closes_before_release True inside es"
| "closes_before_release held inside (Release # es) =
     (\<not> inside \<and> closes_before_release False False es)"
| "closes_before_release held inside (Execute k q args # es) =
     (held \<and> closes_before_release held True es)"
| "closes_before_release held inside (Close k # es) =
     (held \<and> closes_before_release held False es)"

text \<open>
  Two joint logs of two callers. In \<open>create_overlap\<close> caller 1 inserts Ana and caller 2
  inserts Bob; caller 2 gets the lock and runs its insert after caller 1 has released the
  lock and before caller 1's close has returned. In \<open>unique_in_turn\<close> caller 2 checks Bob
  and then caller 1 checks Ana.
\<close>

definition create_overlap :: "(nat \<times> event) list" where
  "create_overlap =
     [(1, Acquire),
      (1, Execute 1 INSERT_USER [''Ana Gomez'', ''ana'', ''ana@x.com'', ''h1'']),
      (1, Release),
      (2, Acquire),
      (2, Execute 2 INSERT_USER [''Bob Diaz'', ''bob'', ''bob@x.com'', ''h2'']),
      (1, Close 1),
      (2, Release),
      (2, Close 2)]"

definition unique_in_turn :: "(nat \<times> event) list" where
  "unique_in_turn =
     [(2, Acquire),
      (2, Execute 2 SELECT_BY_USERNAME_OR_EMAIL [''bob'', ''bob@x.com'']),
      (2, Close 2),
      (2, Release),
      (1, Acquire),
      (1, Execute 1 SELECT_BY_USERNAME_OR_EMAIL [''ana'', ''ana@x.com'']),
      (1, Close 1),
      (1, Release)]"

section \<open>What each operation does from a state with the lock free\<close>

lemmas coro_defs =
  coro_return_def coro_bind_def execute_def close_def async_with_look_def try_finally_def

lemma add_user_run:
  "\<not> look w \<Longrightarrow> add_user c u w =
     Some (if fails c then Inl StoreError else Inr (),
           w\<lparr>user_table :=
               (if fails c then user_table w
                else user_table w @
                     [\<lparr>col_full_name = full_name u, col_username = username u,
                       col_email = email u, col_hashed_password = password u\<rparr>]),
             log := log w @ [Acquire, Execute (conn c) INSERT_USER (model_dump_values u),
                             Release, Close (conn c)]\<rparr>)"
  by (simp add: add_user_def coro_defs model_dump_values_def)

lemma get_user_run:
  "\<not> look w \<Longrightarrow> get_user c un hp w =
     Some (if fails c then Inl StoreError
           else Inr (case filter (\<lambda>r. col_username r = un) (user_table w) of
                       [r] \<Rightarrow>
                         Some (if hp
                               then IsUserDB \<lparr>full_name = col_full_name r,
                                      username = col_username r, email = col_email r,
                                      password = col_hashed_password r\<rparr>
                               else IsUser \<lparr>full_name = col_full_name r,
                                      username = col_username r, email = col_email r\<rparr>)
                     | _ \<Rightarrow> None),
           w\<lparr>log := log w @ [Acquire, Execute (conn c) SELECT_USER [un], Release,
                             Close (conn c)]\<rparr>)"
  by (auto simp add: get_user_def coro_defs columns_def split: list.splits)

lemma get_user_blocked: "look w \<Longrightarrow> get_user c un hp w = None"
  by (simp add: get_user_def coro_defs)

lemma delete_user_run:
  "\<not> look w \<Longrightarrow> delete_user c un w =
     Some (if fails c then Inl StoreError else Inr (),
           w\<lparr>user_table :=
               (if fails c then user_table w
                else filter (\<lambda>r. col_username r \<noteq> un) (user_table w)),
             log := log w @ [Acquire, Execute (conn c) DELETE_USER [un], Release,
                             Close (conn c)]\<rparr>)"
  by (simp add: delete_user_def coro_defs)

lemma update_user_run:
  "\<not> look w \<Longrightarrow> update_user c un u w =
     Some (if fails c then Inl StoreError else Inr (),
           w\<lparr>user_table :=
               (if fails c then user_table w
                else map (\<lambda>r. if col_username r = un
                               then \<lparr>col_full_name = full_name u, col_username = username u,
                                     col_email = email u, col_hashed_password = password u\<rparr>
                               else r) (user_table w)),
             log := log w @ [Acquire,
                             Execute (conn c) UPDATE_USER
                               [full_name u, username u, email u, password u, un],
                             Release, Close (conn c)]\<rparr>)"
  by (simp add: update_user_def coro_defs)

lemma exists_username_run:
  "\<not> look w \<Longrightarrow> exists_username c un w =
     Some (if fails c then Inl StoreError
           else Inr (filter (\<lambda>r. col_username r = un) (user_table w) \<noteq> []),
           w\<lparr>log := log w @ [Acquire, Execute (conn c) SELECT_BY_USERNAME [un], Release,
                             Close (conn c)]\<rparr>)"
  by (simp add: exists_username_def coro_defs)

lemma is_unique_run:
  "\<not> look w \<Longrightarrow> is_unique c u fu w =
     Some (if fails c then Inl StoreError
           else Inr (if fu
                     then length (filter (\<lambda>r. col_username r = username u \<or>
                                               col_email r = email u) (user_table w)) = 1
                     else length (filter (\<lambda>r. col_username r = username u \<or>
                                               col_email r = email u) (user_table w)) = 0),
           w\<lparr>log := log w @ [Acquire,
                             Execute (conn c) SELECT_BY_USERNAME_OR_EMAIL
                               [username u, email u],
                             Close (conn c), Release]\<rparr>)"
  by (simp add: is_unique_def coro_defs)

section \<open>The lock and the connection\<close>

text \<open>
  Claim C1, amended. Started with the lock free, each operation returns or raises having
  made exactly four calls. \<^verbatim>\<open>add_user\<close>, \<^verbatim>\<open>get_user\<close>, \<^verbatim>\<open>delete_user\<close>,
  \<^verbatim>\<open>update_user\<close> and \<^verbatim>\<open>exists_username\<close> take the lock, execute their one statement,
  release the lock and then close the handle: the close comes after the release.
  \<^verbatim>\<open>is_unique\<close> alone takes the lock, executes, closes the handle and then releases the
  lock. This holds whether the statement succeeds or raises.
\<close>

theorem gate_then_close_order:
  assumes "\<not> look w"
  shows "op_log w (add_user c u w)
           [Acquire, Execute (conn c) INSERT_USER (model_dump_values u), Release, Close (conn c)]
       \<and> op_log w (get_user c un hp w)
           [Acquire, Execute (conn c) SELECT_USER [un], Release, Close (conn c)]
       \<and> op_log w (delete_user c un w)
           [Acquire, Execute (conn c) DELETE_USER [un], Release, Close (conn c)]
       \<and> op_log w (update_user c un u w)
           [Acquire,
            Execute (conn c) UPDATE_USER [full_name u, username u, email u, password u, un],
            Release, Close (conn c)]
       \<and> op_log w (exists_username c un w)
           [Acquire, Execute (conn c) SELECT_BY_USERNAME [un], Release, Close (conn c)]
       \<and> op_log w (is_unique c v fu w)
           [Acquire, Execute (conn c) SELECT_BY_USERNAME_OR_EMAIL [username v, email v],
            Close (conn c), Release]"
  using assms
  by (simp add: op_log_def add_user_run get_user_run delete_user_run update_user_run
      exists_username_run is_unique_run)

text \<open>
  An insert and a uniqueness check on an empty table, through a handle that fails.
\<close>

theorem gate_then_close_order_witness:
  "op_log (idle []) (add_user (failing_handle 1) ana (idle []))
     [Acquire, Execute 1 INSERT_USER [''Ana Gomez'', ''ana'', ''ana@x.com'', ''h1''], Release,
      Close 1]
   \<and> op_log (idle []) (is_unique (failing_handle 1) ana True (idle []))
     [Acquire, Execute 1 SELECT_BY_USERNAME_OR_EMAIL [''ana'', ''ana@x.com''], Close 1, Release]"
  using gate_then_close_order [of "idle []" "failing_handle 1" ana "''ana''" True ana True]
  by (simp add: idle_def failing_handle_def ana_def model_dump_values_def)

text \<open>
  Claim C1 as stated fails for \<^verbatim>\<open>add_user\<close>: inserting Ana into an empty table releases
  the lock before the handle is closed.
\<close>

theorem add_user_release_before_close_counterexample:
  "add_user (handle 1) ana (idle []) =
     Some (Inr (),
           \<lparr>user_table = [ana_row], look = False,
            log = [Acquire, Execute 1 INSERT_USER [''Ana Gomez'', ''ana'', ''ana@x.com'', ''h1''],
                   Release, Close 1]\<rparr>)
   \<and> \<not> closes_under_gate False
         [Acquire, Execute 1 INSERT_USER [''Ana Gomez'', ''ana'', ''ana@x.com'', ''h1''],
          Release, Close 1]"
  by (simp add: add_user_def coro_defs model_dump_values_def idle_def handle_def ana_def
      ana_row_def)

text \<open>
  Claim C2. Started with the lock free, each of the six operations returns or raises
  having closed its handle exactly once, and the caller sees the store's failure exactly
  when \<^verbatim>\<open>execute\<close> raised, with the close already in the log.
\<close>

theorem close_once_on_every_exit:
  assumes "\<not> look w"
  shows "closes_once_and_propagates c w (add_user c u w)
       \<and> closes_once_and_propagates c w (get_user c un hp w)
       \<and> closes_once_and_propagates c w (delete_user c un w)
       \<and> closes_once_and_propagates c w (update_user c un u w)
       \<and> closes_once_and_propagates c w (exists_username c un w)
       \<and> closes_once_and_propagates c w (is_unique c v fu w)"
  using assms
  by (simp add: closes_once_and_propagates_def add_user_run get_user_run delete_user_run
      update_user_run exists_username_run is_unique_run)

text \<open>
  An insert through a failing handle and a uniqueness check through a working one.
\<close>

theorem close_once_on_every_exit_witness:
  "closes_once_and_propagates (failing_handle 1) (idle [ana_row])
     (add_user (failing_handle 1) ana (idle [ana_row]))
   \<and> closes_once_and_propagates (handle 2) (idle [ana_row])
     (is_unique (handle 2) ana False (idle [ana_row]))"
  using close_once_on_every_exit [of "idle [ana_row]" "failing_handle 1" ana "''ana''" False ana False]
        close_once_on_every_exit [of "idle [ana_row]" "handle 2" ana "''ana''" False ana False]
  by (simp add: idle_def)

section \<open>Reading a user\<close>

text \<open>
  Claim C3. With the lock free and a handle that does not fail, \<^verbatim>\<open>get_user\<close> returns
  \<open>None\<close> when no row of the table has the username; when exactly one row has it, it
  returns a \<^verbatim>\<open>UserDB\<close> (with the row's \<open>hashed_password\<close> as password) if
  \<^verbatim>\<open>hidden_password\<close> is set and a \<^verbatim>\<open>User\<close> (name, username and email only) if not.
\<close>

theorem get_user_absent_or_view:
  assumes "\<not> look w" and "\<not> fails c"
  shows "(filter (\<lambda>r. col_username r = un) (user_table w) = [] \<longrightarrow>
            (\<exists>w1. get_user c un hp w = Some (Inr None, w1)))
       \<and> (\<forall>r. filter (\<lambda>r. col_username r = un) (user_table w) = [r] \<longrightarrow>
            (\<exists>w1. get_user c un True w =
                    Some (Inr (Some (IsUserDB \<lparr>full_name = col_full_name r,
                            username = col_username r, email = col_email r,
                            password = col_hashed_password r\<rparr>)), w1)) \<and>
            (\<exists>w1. get_user c un False w =
                    Some (Inr (Some (IsUser \<lparr>full_name = col_full_name r,
                            username = col_username r, email = col_email r\<rparr>)), w1)))"
  using assms by (simp add: get_user_run)

text \<open>
  On a table holding Ana's row: \<open>bob\<close> is absent, \<open>ana\<close> is found in both views.
\<close>

theorem get_user_absent_or_view_witness:
  "(\<exists>w1. get_user (handle 1) ''bob'' False (idle [ana_row]) = Some (Inr None, w1))
   \<and> (\<exists>w1. get_user (handle 1) ''ana'' True (idle [ana_row]) = Some (Inr (Some (IsUserDB ana)), w1))
   \<and> (\<exists>w1. get_user (handle 1) ''ana'' False (idle [ana_row]) =
        Some (Inr (Some (IsUser \<lparr>full_name = ''Ana Gomez'', username = ''ana'',
                          email = ''ana@x.com''\<rparr>)), w1))"
  using get_user_absent_or_view [of "idle [ana_row]" "handle 1" "''bob''" False]
        get_user_absent_or_view [of "idle [ana_row]" "handle 1" "''ana''" False]
  by (simp add: idle_def handle_def ana_row_def ana_def)

text \<open>
  Claim C4, amended. With the lock free and a handle that does not fail, in every state
  where more than one row has the username, \<^verbatim>\<open>get_user\<close> returns \<open>None\<close>: it neither
  picks the first row nor raises, and it leaves the table as it was.
\<close>

theorem get_user_several_rows:
  assumes "\<not> look w" and "\<not> fails c"
      and "1 < length (filter (\<lambda>r. col_username r = un) (user_table w))"
  shows "\<exists>w1. get_user c un hp w = Some (Inr None, w1) \<and> user_table w1 = user_table w"
  using assms by (auto simp add: get_user_run split: list.splits)

text \<open>
  Two rows for \<open>ana\<close> around Bob's.
\<close>

theorem get_user_several_rows_witness:
  "\<exists>w1. get_user (handle 1) ''ana'' True (idle [ana_row, bob_row, ana_row]) = Some (Inr None, w1)
        \<and> user_table w1 = [ana_row, bob_row, ana_row]"
  using get_user_several_rows [of "idle [ana_row, bob_row, ana_row]" "handle 1" "''ana''" True]
  by (simp add: idle_def handle_def ana_row_def bob_row_def)

text \<open>
  Claim C4 as stated fails: with two different rows for \<open>ana\<close>, \<^verbatim>\<open>get_user\<close> returns
  \<open>None\<close>; and in no state with more than one row for the username does it return the view
  built from the first of them.
\<close>

theorem get_user_several_rows_counterexample:
  "get_user (handle 1) ''ana'' False (idle [ana_row, ana_twin_row]) =
     Some (Inr None,
           \<lparr>user_table = [ana_row, ana_twin_row], look = False,
            log = [Acquire, Execute 1 SELECT_USER [''ana''], Release, Close 1]\<rparr>)
   \<and> \<not> (\<exists>w c un hp r rs w1.
         filter (\<lambda>r. col_username r = un) (user_table w) = r # rs \<and> rs \<noteq> [] \<and>
         get_user c un hp w =
           Some (Inr (Some (if hp
                            then IsUserDB \<lparr>full_name = col_full_name r,
                                   username = col_username r, email = col_email r,
                                   password = col_hashed_password r\<rparr>
                            else IsUser \<lparr>full_name = col_full_name r,
                                   username = col_username r, email = col_email r\<rparr>)), w1))"
proof
  show "get_user (handle 1) ''ana'' False (idle [ana_row, ana_twin_row]) =
     Some (Inr None,
           \<lparr>user_table = [ana_row, ana_twin_row], look = False,
            log = [Acquire, Execute 1 SELECT_USER [''ana''], Release, Close 1]\<rparr>)"
    by (simp add: get_user_def coro_defs columns_def idle_def handle_def ana_row_def
        ana_twin_row_def)
next
  show "\<not> (\<exists>w c un hp r rs w1.
         filter (\<lambda>r. col_username r = un) (user_table w) = r # rs \<and> rs \<noteq> [] \<and>
         get_user c un hp w =
           Some (Inr (Some (if hp
                            then IsUserDB \<lparr>full_name = col_full_name r,
                                   username = col_username r, email = col_email r,
                                   password = col_hashed_password r\<rparr>
                            else IsUser \<lparr>full_name = col_full_name r,
                                   username = col_username r, email = col_email r\<rparr>)), w1))"
  proof
    assume "\<exists>w c un hp r rs w1.
         filter (\<lambda>r. col_username r = un) (user_table w) = r # rs \<and> rs \<noteq> [] \<and>
         get_user c un hp w =
           Some (Inr (Some (if hp
                            then IsUserDB \<lparr>full_name = col_full_name r,
                                   username = col_username r, email = col_email r,
                                   password = col_hashed_password r\<rparr>
                            else IsUser \<lparr>full_name = col_full_name r,
                                   username = col_username r, email = col_email r\<rparr>)), w1)"
    then obtain w c un hp r rs w1 v where
      m: "filter (\<lambda>r. col_username r = un) (user_table w) = r # rs" "rs \<noteq> []"
      and g: "get_user c un hp w = Some (Inr (Some v), w1)"
      by blast
    show False
    proof (cases "look w")
      case True
      with g show False by (simp add: get_user_blocked)
    next
      case False
      with m g show False
        by (cases rs) (auto simp add: get_user_run split: if_splits)
    qed
  qed
qed

text \<open>
  Claim C10. With the lock free and a handle that does not fail, \<^verbatim>\<open>get_user\<close> returns
  \<open>None\<close> whenever the number of rows with the username is not exactly one, two or more
  rows included, whatever \<^verbatim>\<open>hidden_password\<close> is.
\<close>

theorem get_user_not_exactly_one:
  assumes "\<not> look w" and "\<not> fails c"
      and "length (filter (\<lambda>r. col_username r = un) (user_table w)) \<noteq> 1"
  shows "\<exists>w1. get_user c un hp w = Some (Inr None, w1)"
  using assms by (auto simp add: get_user_run split: list.splits)

text \<open>
  Two rows for \<open>ana\<close> with either flag, and no row at all.
\<close>

theorem get_user_not_exactly_one_witness:
  "(\<exists>w1. get_user (handle 1) ''ana'' True (idle [ana_row, ana_row]) = Some (Inr None, w1))
   \<and> (\<exists>w1. get_user (handle 1) ''ana'' False (idle [ana_row, ana_row]) = Some (Inr None, w1))
   \<and> (\<exists>w1. get_user (handle 1) ''ana'' True (idle []) = Some (Inr None, w1))"
  using get_user_not_exactly_one [of "idle [ana_row, ana_row]" "handle 1" "''ana''" True]
        get_user_not_exactly_one [of "idle [ana_row, ana_row]" "handle 1" "''ana''" False]
        get_user_not_exactly_one [of "idle []" "handle 1" "''ana''" True]
  by (simp add: idle_def handle_def ana_row_def)

section \<open>The uniqueness check\<close>

text \<open>
  Claim C5. With the lock free and a handle that does not fail, \<^verbatim>\<open>is_unique\<close> without
  \<^verbatim>\<open>for_update_user\<close> returns whether no row has the candidate's username or its email,
  and with \<^verbatim>\<open>for_update_user\<close> whether exactly one row has (so none and several both
  give \<open>False\<close>).
\<close>

theorem is_unique_counts:
  assumes "\<not> look w" and "\<not> fails c"
  shows "(\<exists>w1. is_unique c u False w =
            Some (Inr (length (filter (\<lambda>r. col_username r = username u \<or>
                                           col_email r = email u) (user_table w)) = 0), w1))
       \<and> (\<exists>w1. is_unique c u True w =
            Some (Inr (length (filter (\<lambda>r. col_username r = username u \<or>
                                           col_email r = email u) (user_table w)) = 1), w1))"
  using assms by (simp add: is_unique_run)

text \<open>
  Ana against a table with her own row and Bob's: not unique, acceptable for update.
\<close>

theorem is_unique_counts_witness:
  "(\<exists>w1. is_unique (handle 1) ana False (idle [ana_row, bob_row]) = Some (Inr False, w1))
   \<and> (\<exists>w1. is_unique (handle 1) ana True (idle [ana_row, bob_row]) = Some (Inr True, w1))"
  using is_unique_counts [of "idle [ana_row, bob_row]" "handle 1" ana]
  by (simp add: idle_def handle_def ana_row_def bob_row_def ana_def)

section \<open>One operation after another\<close>

text \<open>
  A caller that awaits one operation and then the next is \<open>coro_bind\<close> of the two, each
  with a handle of its own. The lemmas below say which rows a \<open>WHERE username = ?\<close> finds
  after an insert, an update or a delete.
\<close>

lemma filter_username_fresh:
  "un \<notin> col_username ` set t \<Longrightarrow> filter (\<lambda>x. col_username x = un) t = []"
  by (induction t) auto

lemma filter_username_updated:
  assumes "col_username new = un'"
      and "un' = u \<or> un' \<notin> col_username ` set t"
  shows "filter (\<lambda>x. col_username x = un')
           (map (\<lambda>r. if col_username r = u then new else r) t) =
         replicate (length (filter (\<lambda>x. col_username x = u) t)) new"
  using assms by (induction t) auto

lemma filter_old_username_updated:
  assumes "col_username new \<noteq> u"
  shows "filter (\<lambda>x. col_username x = u)
           (map (\<lambda>r. if col_username r = u then new else r) t) = []"
  using assms by (induction t) auto

lemma filter_new_username_updated:
  assumes "u \<in> col_username ` set t" and "col_username new = un'"
  shows "filter (\<lambda>x. col_username x = un')
           (map (\<lambda>r. if col_username r = u then new else r) t) \<noteq> []"
  using assms by (induction t) auto

lemma filter_username_deleted:
  "filter (\<lambda>x. col_username x = u) (filter (\<lambda>r. col_username r \<noteq> u) t) = []"
  by (induction t) auto

lemma filter_absent_username:
  "u \<notin> col_username ` set t \<Longrightarrow> filter (\<lambda>r. col_username r \<noteq> u) t = t"
  by (induction t) auto

text \<open>
  Claim C6. For a record whose username no row of the table has, with the lock free and
  handles that do not fail: \<^verbatim>\<open>add_user\<close> followed by \<^verbatim>\<open>get_user\<close> on the record's
  username returns the \<^verbatim>\<open>User\<close> with the record's name, username and email, and with
  \<^verbatim>\<open>hidden_password\<close> set it returns the record itself as a \<^verbatim>\<open>UserDB\<close>, password
  included.
\<close>

theorem add_user_then_get_user:
  assumes "\<not> look w" and "\<not> fails c1" and "\<not> fails c2"
      and "username r \<notin> col_username ` set (user_table w)"
  shows "(\<exists>w1. coro_bind (add_user c1 r) (\<lambda>_. get_user c2 (username r) False) w =
            Some (Inr (Some (IsUser \<lparr>full_name = full_name r, username = username r,
                              email = email r\<rparr>)), w1))
       \<and> (\<exists>w1. coro_bind (add_user c1 r) (\<lambda>_. get_user c2 (username r) True) w =
            Some (Inr (Some (IsUserDB r)), w1))"
  using assms
  by (simp add: coro_bind_def add_user_run get_user_run filter_username_fresh)

text \<open>
  Ana added to a table that holds Bob's row.
\<close>

theorem add_user_then_get_user_witness:
  "(\<exists>w1. coro_bind (add_user (handle 1) ana) (\<lambda>_. get_user (handle 2) ''ana'' False)
            (idle [bob_row]) =
          Some (Inr (Some (IsUser \<lparr>full_name = ''Ana Gomez'', username = ''ana'',
                            email = ''ana@x.com''\<rparr>)), w1))
   \<and> (\<exists>w1. coro_bind (add_user (handle 1) ana) (\<lambda>_. get_user (handle 2) ''ana'' True)
            (idle [bob_row]) =
          Some (Inr (Some (IsUserDB ana)), w1))"
  using add_user_then_get_user [of "idle [bob_row]" "handle 1" "handle 2" ana]
  by (simp add: idle_def handle_def bob_row_def ana_def)

text \<open>
  Claim C7, amended. In a state where some row has the username \<open>u\<close>, with the lock
  free and handles that do not fail: after a rename (the replacement's username differs
  from \<open>u\<close>) \<^verbatim>\<open>update_user\<close> followed by \<^verbatim>\<open>exists_username\<close> gives \<open>False\<close> for
  \<open>u\<close> and \<open>True\<close> for the new username; and when exactly one row has \<open>u\<close> and the
  replacement's username is \<open>u\<close> itself or one that no row has, \<^verbatim>\<open>update_user\<close>
  followed by \<^verbatim>\<open>get_user\<close> on the replacement's username returns the replacement (as
  \<^verbatim>\<open>User\<close>, or as \<^verbatim>\<open>UserDB\<close> with the password).
\<close>

theorem update_user_then_get_user:
  assumes "\<not> look w" and "\<not> fails c1" and "\<not> fails c2"
      and "u \<in> col_username ` set (user_table w)"
  shows "(length (filter (\<lambda>x. col_username x = u) (user_table w)) = 1 \<and>
          (username r = u \<or> username r \<notin> col_username ` set (user_table w)) \<longrightarrow>
            (\<exists>w1. coro_bind (update_user c1 u r) (\<lambda>_. get_user c2 (username r) False) w =
                    Some (Inr (Some (IsUser \<lparr>full_name = full_name r, username = username r,
                                      email = email r\<rparr>)), w1)) \<and>
            (\<exists>w1. coro_bind (update_user c1 u r) (\<lambda>_. get_user c2 (username r) True) w =
                    Some (Inr (Some (IsUserDB r)), w1)))
       \<and> (username r \<noteq> u \<longrightarrow>
            (\<exists>w1. coro_bind (update_user c1 u r) (\<lambda>_. exists_username c2 u) w =
                    Some (Inr False, w1)) \<and>
            (\<exists>w1. coro_bind (update_user c1 u r) (\<lambda>_. exists_username c2 (username r)) w =
                    Some (Inr True, w1)))"
proof -
  let ?new = "\<lparr>col_full_name = full_name r, col_username = username r, col_email = email r,
               col_hashed_password = password r\<rparr>"
  let ?t = "map (\<lambda>x. if col_username x = u then ?new else x) (user_table w)"
  have sel: "filter (\<lambda>x. col_username x = username r) ?t = [?new]"
    if "length (filter (\<lambda>x. col_username x = u) (user_table w)) = 1"
      and "username r = u \<or> username r \<notin> col_username ` set (user_table w)"
    using that filter_username_updated [of ?new "username r" u "user_table w"]
    by simp
  have old: "filter (\<lambda>x. col_username x = u) ?t = []" if "username r \<noteq> u"
    using that filter_old_username_updated [of ?new u "user_table w"] by simp
  have new: "filter (\<lambda>x. col_username x = username r) ?t \<noteq> []"
    using assms(4) filter_new_username_updated [of u "user_table w" ?new "username r"]
    by simp
  from assms(1-3) sel old new show ?thesis
    by (simp add: coro_bind_def update_user_run get_user_run exists_username_run)
qed

text \<open>
  In a table with Ana's row and Bob's: Ana renamed to \<open>ana2\<close>, and Ana replaced under
  her own username. In a table with two rows for \<open>ana\<close> and Bob's: after the rename to
  \<open>bob\<close>, \<open>ana\<close> is gone and \<open>bob\<close> exists.
\<close>

theorem update_user_then_get_user_witness:
  "(\<exists>w1. coro_bind
            (update_user (handle 1) ''ana''
               \<lparr>full_name = ''Ana G.'', username = ''ana2'', email = ''ana@x.com'',
                password = ''h1''\<rparr>)
            (\<lambda>_. get_user (handle 2) ''ana2'' False) (idle [ana_row, bob_row]) =
          Some (Inr (Some (IsUser \<lparr>full_name = ''Ana G.'', username = ''ana2'',
                            email = ''ana@x.com''\<rparr>)), w1))
   \<and> (\<exists>w1. coro_bind
            (update_user (handle 1) ''ana''
               \<lparr>full_name = ''Ana G.'', username = ''ana2'', email = ''ana@x.com'',
                password = ''h1''\<rparr>)
            (\<lambda>_. exists_username (handle 2) ''ana'') (idle [ana_row, bob_row]) =
          Some (Inr False, w1))
   \<and> (\<exists>w1. coro_bind
            (update_user (handle 1) ''ana''
               \<lparr>full_name = ''Ana G.'', username = ''ana2'', email = ''ana@x.com'',
                password = ''h1''\<rparr>)
            (\<lambda>_. exists_username (handle 2) ''ana2'') (idle [ana_row, bob_row]) =
          Some (Inr True, w1))
   \<and> (\<exists>w1. coro_bind
            (update_user (handle 1) ''ana''
               \<lparr>full_name = ''Ana G.'', username = ''ana'', email = ''new@x.com'',
                password = ''h9''\<rparr>)
            (\<lambda>_. get_user (handle 2) ''ana'' True) (idle [ana_row, bob_row]) =
          Some (Inr (Some (IsUserDB \<lparr>full_name = ''Ana G.'', username = ''ana'',
                            email = ''new@x.com'', password = ''h9''\<rparr>)), w1))
   \<and> (\<exists>w1. coro_bind
            (update_user (handle 1) ''ana''
               \<lparr>full_name = ''Ana G.'', username = ''bob'', email = ''ana@x.com'',
                password = ''h1''\<rparr>)
            (\<lambda>_. exists_username (handle 2) ''ana'') (idle [ana_row, ana_twin_row, bob_row]) =
          Some (Inr False, w1))
   \<and> (\<exists>w1. coro_bind
            (update_user (handle 1) ''ana''
               \<lparr>full_name = ''Ana G.'', username = ''bob'', email = ''ana@x.com'',
                password = ''h1''\<rparr>)
            (\<lambda>_. exists_username (handle 2) ''bob'') (idle [ana_row, ana_twin_row, bob_row]) =
          Some (Inr True, w1))"
  using update_user_then_get_user [of "idle [ana_row, bob_row]" "handle 1" "handle 2" "''ana''"
          "\<lparr>full_name = ''Ana G.'', username = ''ana2'', email = ''ana@x.com'',
            password = ''h1''\<rparr>"]
        update_user_then_get_user [of "idle [ana_row, bob_row]" "handle 1" "handle 2" "''ana''"
          "\<lparr>full_name = ''Ana G.'', username = ''ana'', email = ''new@x.com'',
            password = ''h9''\<rparr>"]
        update_user_then_get_user [of "idle [ana_row, ana_twin_row, bob_row]" "handle 1"
          "handle 2" "''ana''"
          "\<lparr>full_name = ''Ana G.'', username = ''bob'', email = ''ana@x.com'',
            password = ''h1''\<rparr>"]
  by (simp add: idle_def handle_def ana_row_def bob_row_def ana_twin_row_def)

text \<open>
  Claim C7 as stated fails in its read half. When the replacement takes a username
  another row already has (Ana renamed to \<open>bob\<close> beside Bob's row), and when two rows have
  the username \<open>u\<close> (both become \<open>ana2\<close>), two rows carry the new username afterwards and
  \<^verbatim>\<open>get_user\<close> returns \<open>None\<close>.
\<close>

theorem update_user_onto_taken_username_counterexample:
  "coro_bind
     (update_user (handle 1) ''ana''
        \<lparr>full_name = ''Ana G.'', username = ''bob'', email = ''ana@x.com'', password = ''h1''\<rparr>)
     (\<lambda>_. get_user (handle 2) ''bob'' False) (idle [ana_row, bob_row]) =
   Some (Inr None,
         \<lparr>user_table =
            [\<lparr>col_full_name = ''Ana G.'', col_username = ''bob'', col_email = ''ana@x.com'',
              col_hashed_password = ''h1''\<rparr>, bob_row],
          look = False,
          log = [Acquire,
                 Execute 1 UPDATE_USER [''Ana G.'', ''bob'', ''ana@x.com'', ''h1'', ''ana''],
                 Release, Close 1,
                 Acquire, Execute 2 SELECT_USER [''bob''], Release, Close 2]\<rparr>)
   \<and> coro_bind
     (update_user (handle 1) ''ana''
        \<lparr>full_name = ''Ana G.'', username = ''ana2'', email = ''ana@x.com'', password = ''h1''\<rparr>)
     (\<lambda>_. get_user (handle 2) ''ana2'' False) (idle [ana_row, ana_twin_row]) =
   Some (Inr None,
         \<lparr>user_table =
            [\<lparr>col_full_name = ''Ana G.'', col_username = ''ana2'', col_email = ''ana@x.com'',
              col_hashed_password = ''h1''\<rparr>,
             \<lparr>col_full_name = ''Ana G.'', col_username = ''ana2'', col_email = ''ana@x.com'',
              col_hashed_password = ''h1''\<rparr>],
          look = False,
          log = [Acquire,
                 Execute 1 UPDATE_USER [''Ana G.'', ''ana2'', ''ana@x.com'', ''h1'', ''ana''],
                 Release, Close 1,
                 Acquire, Execute 2 SELECT_USER [''ana2''], Release, Close 2]\<rparr>)"
  by (simp add: update_user_def get_user_def coro_defs columns_def idle_def handle_def
      ana_row_def bob_row_def ana_twin_row_def)

text \<open>
  Claim C8. With the lock free and handles that do not fail, for any username:
  \<^verbatim>\<open>delete_user\<close> followed by \<^verbatim>\<open>exists_username\<close> returns \<open>False\<close>; \<^verbatim>\<open>delete_user\<close>
  returns normally and leaves exactly the rows with another username; and when no row has
  the username the table is unchanged.
\<close>

theorem delete_user_then_exists_username:
  assumes "\<not> look w" and "\<not> fails c1" and "\<not> fails c2"
  shows "(\<exists>w1. coro_bind (delete_user c1 u) (\<lambda>_. exists_username c2 u) w =
            Some (Inr False, w1))
       \<and> (\<exists>w1. delete_user c1 u w = Some (Inr (), w1) \<and>
              user_table w1 = filter (\<lambda>r. col_username r \<noteq> u) (user_table w))
       \<and> (u \<notin> col_username ` set (user_table w) \<longrightarrow>
            (\<exists>w1. delete_user c1 u w = Some (Inr (), w1) \<and> user_table w1 = user_table w))"
  using assms
  by (simp add: coro_bind_def delete_user_run exists_username_run filter_username_deleted
      filter_absent_username)

text \<open>
  Deleting \<open>ana\<close> from a table with two rows of hers and from one without any.
\<close>

theorem delete_user_then_exists_username_witness:
  "(\<exists>w1. coro_bind (delete_user (handle 1) ''ana'') (\<lambda>_. exists_username (handle 2) ''ana'')
            (idle [ana_row, bob_row, ana_row]) = Some (Inr False, w1))
   \<and> (\<exists>w1. delete_user (handle 1) ''ana'' (idle [ana_row, bob_row, ana_row]) = Some (Inr (), w1) \<and>
          user_table w1 = [bob_row])
   \<and> (\<exists>w1. coro_bind (delete_user (handle 1) ''ana'') (\<lambda>_. exists_username (handle 2) ''ana'')
            (idle [bob_row]) = Some (Inr False, w1))
   \<and> (\<exists>w1. delete_user (handle 1) ''ana'' (idle [bob_row]) = Some (Inr (), w1) \<and>
          user_table w1 = [bob_row])"
  using delete_user_then_exists_username [of "idle [ana_row, bob_row, ana_row]" "handle 1" "handle 2" "''ana''"]
        delete_user_then_exists_username [of "idle [bob_row]" "handle 1" "handle 2" "''ana''"]
  by (simp add: idle_def handle_def bob_row_def ana_row_def)

section \<open>Existence check and the end-to-end scenario\<close>

text \<open>
  With the lock free and a handle that does not fail, \<^verbatim>\<open>exists_username\<close> returns whether
  at least one row has the username, and leaves the table as it was.
\<close>

theorem exists_username_iff:
  assumes "\<not> look w" and "\<not> fails c"
  shows "\<exists>w1. exists_username c un w = Some (Inr (un \<in> col_username ` set (user_table w)), w1)
              \<and> user_table w1 = user_table w"
proof -
  have "(filter (\<lambda>r. col_username r = un) (user_table w) \<noteq> []) =
        (un \<in> col_username ` set (user_table w))"
    by (auto simp add: filter_empty_conv)
  with assms show ?thesis by (simp add: exists_username_run)
qed

text \<open>\<open>ana\<close> looked up in a table that has her row and in one that has not.\<close>

theorem exists_username_iff_witness:
  "(\<exists>w1. exists_username (handle 1) ''ana'' (idle [bob_row, ana_row]) = Some (Inr True, w1)
         \<and> user_table w1 = [bob_row, ana_row])
   \<and> (\<exists>w1. exists_username (handle 1) ''ana'' (idle [bob_row]) = Some (Inr False, w1)
         \<and> user_table w1 = [bob_row])"
  using exists_username_iff [of "idle [bob_row, ana_row]" "handle 1" "''ana''"]
        exists_username_iff [of "idle [bob_row]" "handle 1" "''ana''"]
  by (simp add: idle_def handle_def bob_row_def ana_row_def)

text \<open>
  The scenario on an empty table: the public and the privileged view of Ana after the
  insert; \<open>ana\<close> exists; \<open>ana\<close> with another email is not unique; after the rename \<open>ana\<close>
  is gone and \<open>ana2\<close> exists; after the delete \<open>ana2\<close> is gone, the table is empty again
  and the lock is free.
\<close>

theorem scenario_runs:
  "\<exists>w1. scenario (idle []) =
          Some (Inr (Some (IsUser \<lparr>full_name = ''Ana Gomez'', username = ''ana'',
                             email = ''ana@x.com''\<rparr>),
                     Some (IsUserDB ana), True, False, False, True, False), w1)
        \<and> user_table w1 = [] \<and> \<not> look w1"
  by (simp add: scenario_def coro_bind_def coro_return_def add_user_run get_user_run
      exists_username_run is_unique_run update_user_run delete_user_run idle_def handle_def
      ana_def)

section \<open>Several callers at once\<close>

text \<open>
  Each operation's own calls have one of two shapes: acquire, query, release, close, or
  (for \<^verbatim>\<open>is_unique\<close>) acquire, query, close, release. Either way the query lies between
  the acquire and the release.
\<close>

lemma idle_simps: "\<not> look (idle t)" "log (idle t) = []"
  by (simp_all add: idle_def)

lemma call_log_shape:
  "(\<exists>k q args. call_log t a = [Acquire, Execute k q args, Release, Close k]) \<or>
   (\<exists>k q args. call_log t a = [Acquire, Execute k q args, Close k, Release])"
  by (cases a)
     (simp_all add: calls_made_def idle_simps add_user_run get_user_run delete_user_run
        update_user_run exists_username_run is_unique_run)

lemma call_log_executes_under_gate: "executes_under_gate False (call_log t a)"
  using call_log_shape [of t a] by auto

lemma is_unique_log_closes_before_release:
  "closes_before_release False False (call_log t (IsUnique c v fu))"
  by (simp add: calls_made_def idle_simps is_unique_run)

lemma calls_of_Cons:
  "calls_of i ((j, e) # zs) = (if j = i then e # calls_of i zs else calls_of i zs)"
  by (simp add: calls_of_def)

text \<open>
  The two invariants, for any number of callers: if the joint log respects the lock and
  every caller's own calls pass the single-caller check, the joint log passes the joint
  check. The state of the single-caller check of caller \<open>i\<close> is kept equal to whether
  \<open>i\<close> holds the lock (and whether \<open>i\<close> is the caller inside).
\<close>

lemma queries_under_gate_general:
  "lock_respecting h zs \<Longrightarrow>
   (\<And>i. executes_under_gate (h = Some i) (calls_of i zs)) \<Longrightarrow>
   queries_under_gate h zs"
proof (induction zs arbitrary: h)
  case Nil
  then show ?case by simp
next
  case (Cons p zs)
  obtain j e where p: "p = (j, e)" by (cases p)
  show ?case
  proof (cases e)
    case Acquire
    from Cons.prems(1) have h: "h = None" and lr: "lock_respecting (Some j) zs"
      by (simp_all add: p Acquire)
    have "executes_under_gate (Some j = Some i) (calls_of i zs)" for i
      using Cons.prems(2) [of i] by (cases "i = j") (auto simp add: p Acquire calls_of_Cons h)
    with lr show ?thesis
      by (simp add: p Acquire Cons.IH)
  next
    case Release
    from Cons.prems(1) have h: "h = Some j" and lr: "lock_respecting None zs"
      by (simp_all add: p Release)
    have "executes_under_gate (None = Some i) (calls_of i zs)" for i
      using Cons.prems(2) [of i] by (cases "i = j") (auto simp add: p Release calls_of_Cons h)
    with lr show ?thesis
      by (simp add: p Release Cons.IH)
  next
    case (Execute k q args)
    from Cons.prems(1) have lr: "lock_respecting h zs"
      by (simp add: p Execute)
    from Cons.prems(2) [of j] have hj: "h = Some j"
      by (simp add: p Execute calls_of_Cons)
    have "executes_under_gate (h = Some i) (calls_of i zs)" for i
      using Cons.prems(2) [of i] by (cases "i = j") (auto simp add: p Execute calls_of_Cons)
    with lr hj show ?thesis
      by (simp add: p Execute Cons.IH)
  next
    case (Close k)
    from Cons.prems(1) have lr: "lock_respecting h zs"
      by (simp add: p Close)
    have "executes_under_gate (h = Some i) (calls_of i zs)" for i
      using Cons.prems(2) [of i] by (cases "i = j") (auto simp add: p Close calls_of_Cons)
    with lr show ?thesis
      by (simp add: p Close Cons.IH)
  qed
qed

lemma serialized_general:
  "lock_respecting h zs \<Longrightarrow> cur = None \<or> cur = h \<Longrightarrow>
   (\<And>i. closes_before_release (h = Some i) (cur = Some i) (calls_of i zs)) \<Longrightarrow>
   serialized cur zs"
proof (induction zs arbitrary: h cur)
  case Nil
  then show ?case by simp
next
  case (Cons p zs)
  obtain j e where p: "p = (j, e)" by (cases p)
  show ?case
  proof (cases e)
    case Acquire
    from Cons.prems(1) have h: "h = None" and lr: "lock_respecting (Some j) zs"
      by (simp_all add: p Acquire)
    from Cons.prems(2) h have cur: "cur = None" by simp
    have "closes_before_release (Some j = Some i) (cur = Some i) (calls_of i zs)" for i
      using Cons.prems(3) [of i] by (cases "i = j") (auto simp add: p Acquire calls_of_Cons h)
    with lr cur show ?thesis
      by (simp add: p Acquire Cons.IH)
  next
    case Release
    from Cons.prems(1) have h: "h = Some j" and lr: "lock_respecting None zs"
      by (simp_all add: p Release)
    from Cons.prems(3) [of j] have "cur \<noteq> Some j"
      by (simp add: p Release calls_of_Cons)
    with Cons.prems(2) h have cur: "cur = None" by simp
    have "closes_before_release (None = Some i) (cur = Some i) (calls_of i zs)" for i
      using Cons.prems(3) [of i] by (cases "i = j") (auto simp add: p Release calls_of_Cons h cur)
    with lr cur show ?thesis
      by (simp add: p Release Cons.IH)
  next
    case (Execute k q args)
    from Cons.prems(1) have lr: "lock_respecting h zs"
      by (simp add: p Execute)
    from Cons.prems(3) [of j] have h: "h = Some j"
      by (simp add: p Execute calls_of_Cons)
    from Cons.prems(2) h have cur: "cur = None \<or> cur = Some j" by simp
    have "closes_before_release (h = Some i) (Some j = Some i) (calls_of i zs)" for i
      using Cons.prems(3) [of i] cur by (cases "i = j") (auto simp add: p Execute calls_of_Cons)
    with lr h have "serialized (Some j) zs"
      by (simp add: Cons.IH)
    with cur show ?thesis
      by (simp add: p Execute)
  next
    case (Close k)
    from Cons.prems(1) have lr: "lock_respecting h zs"
      by (simp add: p Close)
    from Cons.prems(3) [of j] have h: "h = Some j"
      by (simp add: p Close calls_of_Cons)
    from Cons.prems(2) h have cur: "cur = None \<or> cur = Some j" by simp
    have "closes_before_release (h = Some i) (None = Some i) (calls_of i zs)" for i
      using Cons.prems(3) [of i] cur by (cases "i = j") (auto simp add: p Close calls_of_Cons)
    with lr have "serialized None zs"
      by (simp add: Cons.IH)
    with cur show ?thesis
      by (simp add: p Close)
  qed
qed

text \<open>
  Two callers: a joint log is an interleaving (\<open>shuffles\<close>) of their tagged calls, and each
  caller's calls can be read back from it.
\<close>

lemma calls_of_shuffle:
  assumes "zs \<in> shuffles (by_caller i xs) (by_caller j ys)" and "i \<noteq> j"
  shows "calls_of k zs = (if k = i then xs else if k = j then ys else [])"
proof -
  let ?P = "\<lambda>p::nat \<times> event. fst p = k"
  from assms(1) have "filter ?P zs \<in> filter ?P ` shuffles (by_caller i xs) (by_caller j ys)"
    by (rule imageI)
  then have m: "filter ?P zs \<in> shuffles (filter ?P (by_caller i xs)) (filter ?P (by_caller j ys))"
    by (simp only: filter_shuffles)
  have f: "filter ?P (by_caller l es) = (if k = l then by_caller l es else [])" for l es
    by (induction es) (auto simp add: by_caller_def)
  have s: "map snd (by_caller l es) = es" for l es
    by (simp add: by_caller_def comp_def)
  from m assms(2) show ?thesis
    by (auto simp add: f s calls_of_def)
qed

lemma calls_of_two_callers:
  assumes "zs \<in> shuffles (by_caller i xs) (by_caller j ys)" and "i \<noteq> j"
  shows "calls_of i zs = xs" and "calls_of j zs = ys"
    and "k \<noteq> i \<Longrightarrow> k \<noteq> j \<Longrightarrow> calls_of k zs = []"
  using assms by (simp_all add: calls_of_shuffle)

lemma two_callers_queries_under_gate:
  assumes "zs \<in> shuffles (by_caller i (call_log t1 a)) (by_caller j (call_log t2 b))"
      and "i \<noteq> j" and "lock_respecting None zs"
  shows "queries_under_gate None zs"
proof -
  have "executes_under_gate (None = Some k) (calls_of k zs)" for k
    using call_log_executes_under_gate [of t1 a] call_log_executes_under_gate [of t2 b]
    by (simp add: calls_of_shuffle [OF assms(1,2)])
  with assms(3) show ?thesis
    by (rule queries_under_gate_general)
qed

lemma two_is_unique_serialized:
  assumes "zs \<in> shuffles (by_caller i (call_log t1 (IsUnique c1 v1 f1)))
                          (by_caller j (call_log t2 (IsUnique c2 v2 f2)))"
      and "i \<noteq> j" and "lock_respecting None zs"
  shows "serialized None zs"
proof -
  have "closes_before_release (None = Some k) (None = Some k) (calls_of k zs)" for k
    using is_unique_log_closes_before_release [of t1 c1 v1 f1]
      is_unique_log_closes_before_release [of t2 c2 v2 f2]
    by (simp add: calls_of_shuffle [OF assms(1,2)] del: call_log.simps)
  with assms(3) show ?thesis
    by (intro serialized_general [where h = None]) simp_all
qed

lemma create_overlap_shuffle:
  "create_overlap \<in> shuffles (by_caller 1 (call_log [] (AddUser (handle 1) ana)))
                              (by_caller 2 (call_log [] (AddUser (handle 2) bob)))"
  by (simp add: create_overlap_def by_caller_def calls_made_def idle_simps add_user_run
      model_dump_values_def handle_def ana_def bob_def Cons_in_shuffles_iff)

lemma unique_in_turn_shuffle:
  "unique_in_turn \<in> shuffles (by_caller 1 (call_log [] (IsUnique (handle 1) (user.truncate ana) False)))
                              (by_caller 2 (call_log [] (IsUnique (handle 2) (user.truncate bob) True)))"
  by (simp add: unique_in_turn_def by_caller_def calls_made_def idle_simps is_unique_run
      handle_def ana_def bob_def Cons_in_shuffles_iff user.truncate_def)

text \<open>
  Claim C9, amended. For any number of callers running at once, each making one
  repository operation, in every joint log that respects the lock: every query is made by
  the caller that holds the lock, so the queries of two operations never interleave (the
  inserts of two concurrent \<^verbatim>\<open>add_user\<close> calls included); and when all the operations are
  \<^verbatim>\<open>is_unique\<close> calls, at most one caller at a time is inside its query/close sequence.
\<close>

theorem concurrent_queries_under_gate:
  assumes "lock_respecting None zs"
  shows "((\<forall>i. calls_of i zs = [] \<or> (\<exists>t a. calls_of i zs = call_log t a)) \<longrightarrow>
            queries_under_gate None zs)
       \<and> ((\<forall>i. calls_of i zs = [] \<or>
                (\<exists>t c v fu. calls_of i zs = call_log t (IsUnique c v fu))) \<longrightarrow>
            serialized None zs)"
proof (intro conjI impI)
  assume a: "\<forall>i. calls_of i zs = [] \<or> (\<exists>t a. calls_of i zs = call_log t a)"
  have "executes_under_gate (None = Some i) (calls_of i zs)" for i
    using a call_log_executes_under_gate by (cases "calls_of i zs = []") auto
  with assms show "queries_under_gate None zs"
    by (rule queries_under_gate_general)
next
  assume a: "\<forall>i. calls_of i zs = [] \<or>
                (\<exists>t c v fu. calls_of i zs = call_log t (IsUnique c v fu))"
  have "closes_before_release (None = Some i) (None = Some i) (calls_of i zs)" for i
    using a is_unique_log_closes_before_release by (cases "calls_of i zs = []") auto
  with assms show "serialized None zs"
    by (intro serialized_general [where h = None]) simp_all
qed

text \<open>
  The overlapping inserts of Ana and Bob respect the lock and keep every query under it;
  the two uniqueness checks in turn are serialized.
\<close>

theorem concurrent_queries_under_gate_witness:
  "lock_respecting None create_overlap
   \<and> (\<forall>i. calls_of i create_overlap = [] \<or> (\<exists>t a. calls_of i create_overlap = call_log t a))
   \<and> queries_under_gate None create_overlap
   \<and> lock_respecting None unique_in_turn
   \<and> (\<forall>i. calls_of i unique_in_turn = [] \<or>
          (\<exists>t c v fu. calls_of i unique_in_turn = call_log t (IsUnique c v fu)))
   \<and> serialized None unique_in_turn"
proof -
  have ne: "(1::nat) \<noteq> 2" by simp
  have l1: "lock_respecting None create_overlap"
    by (simp add: create_overlap_def)
  have l2: "lock_respecting None unique_in_turn"
    by (simp add: unique_in_turn_def)
  have c1: "\<forall>i. calls_of i create_overlap = [] \<or> (\<exists>t a. calls_of i create_overlap = call_log t a)"
  proof
    fix i :: nat
    note two = calls_of_two_callers [OF create_overlap_shuffle ne]
    consider "i = 1" | "i = 2" | "i \<noteq> 1" "i \<noteq> 2" by blast
    then show "calls_of i create_overlap = [] \<or>
               (\<exists>t a. calls_of i create_overlap = call_log t a)"
    proof cases
      case 1
      with two(1) show ?thesis by blast
    next
      case 2
      with two(2) show ?thesis by blast
    next
      case 3
      with two(3) show ?thesis by blast
    qed
  qed
  have c2: "\<forall>i. calls_of i unique_in_turn = [] \<or>
          (\<exists>t c v fu. calls_of i unique_in_turn = call_log t (IsUnique c v fu))"
  proof
    fix i :: nat
    note two = calls_of_two_callers [OF unique_in_turn_shuffle ne]
    consider "i = 1" | "i = 2" | "i \<noteq> 1" "i \<noteq> 2" by blast
    then show "calls_of i unique_in_turn = [] \<or>
               (\<exists>t c v fu. calls_of i unique_in_turn = call_log t (IsUnique c v fu))"
    proof cases
      case 1
      with two(1) show ?thesis by blast
    next
      case 2
      with two(2) show ?thesis by blast
    next
      case 3
      with two(3) show ?thesis by blast
    qed
  qed
  from concurrent_queries_under_gate [OF l1] c1 have q: "queries_under_gate None create_overlap"
    by blast
  from concurrent_queries_under_gate [OF l2] c2 have s: "serialized None unique_in_turn"
    by blast
  from l1 c1 q l2 c2 s show ?thesis by blast
qed

text \<open>
  Claim C9 as stated fails for two concurrent \<^verbatim>\<open>add_user\<close> calls: \<open>create_overlap\<close> is
  an interleaving of their calls that respects the lock, and in it the second caller's
  insert runs while the first caller is still between its query and its close.
\<close>

theorem two_creates_overlap_counterexample:
  "create_overlap =
     [(1, Acquire),
      (1, Execute 1 INSERT_USER [''Ana Gomez'', ''ana'', ''ana@x.com'', ''h1'']),
      (1, Release),
      (2, Acquire),
      (2, Execute 2 INSERT_USER [''Bob Diaz'', ''bob'', ''bob@x.com'', ''h2'']),
      (1, Close 1),
      (2, Release),
      (2, Close 2)]
   \<and> create_overlap \<in> shuffles (by_caller 1 (call_log [] (AddUser (handle 1) ana)))
                                (by_caller 2 (call_log [] (AddUser (handle 2) bob)))
   \<and> lock_respecting None create_overlap
   \<and> \<not> serialized None create_overlap"
  using create_overlap_shuffle by (simp add: create_overlap_def)

end
